theory Spec2Isabelle
  imports
    Complex_Main
    "HOL-Library.Log_Nat"
    "HOL-Library.Multiset"
    "HOL-Library.Char_ord"
    "HOL-Library.List_Lexorder"
begin

section \<open>Errors and observable events\<close>

text \<open>
  The exceptions that the modelled part of \<^verbatim>\<open>classify.py\<close> can raise. The specification
  speaks of MissingColumn, ShapeMismatch and InsufficientData; the program raises the
  Python exceptions below (a missing column is a \<^verbatim>\<open>KeyError\<close> of pandas, inconsistent
  lengths and a failed unpacking are \<^verbatim>\<open>ValueError\<close>s, \<^verbatim>\<open>predicts[-1]\<close> on an empty list is
  an \<^verbatim>\<open>IndexError\<close>). \<open>ClassifierError\<close> stands for whatever the classifier capability raises.
\<close>

datatype error = KeyError | ValueError | IndexError | AttributeError | ClassifierError

section \<open>Double-precision arithmetic\<close>

text \<open>
  \<^verbatim>\<open>np.linspace\<close> and the product with \<^verbatim>\<open>len(y)\<close> compute in IEEE binary64. A finite double
  is modelled by the rational number it denotes, and every arithmetic operation by the
  exact operation followed by \<open>fl\<close>, rounding to the nearest number with a 53-bit
  significand, ties to even. Overflow and subnormal numbers are not modelled: the values
  of the program lie between \<open>1 / lc\<close> and \<open>len(y)\<close>.
\<close>

definition ilog2 :: "rat \<Rightarrow> int" where
  \<comment> \<open>for \<open>0 < x\<close>, the exponent \<open>e\<close> with \<open>2 powi e \<le> x < 2 powi (e + 1)\<close>\<close>
  "ilog2 x =
     (let (p, q) = quotient_of x; k = bitlen p - bitlen q
      in if 2 powi k \<le> x then k else k - 1)"

definition rne :: "rat \<Rightarrow> int" where
  \<comment> \<open>nearest integer, ties to the even one\<close>
  "rne x =
     (let f = \<lfloor>x\<rfloor>; d = x - of_int f
      in if d < 1 / 2 then f else if 1 / 2 < d then f + 1 else if even f then f else f + 1)"

definition fl :: "rat \<Rightarrow> rat" where
  "fl x =
     (if x = 0 then 0
      else let a = \<bar>x\<bar>; u = 2 powi (ilog2 a - 52)
           in sgn x * (of_int (rne (a / u)) * u))"

definition trunc :: "rat \<Rightarrow> int" where
  \<comment> \<open>\<^verbatim>\<open>astype(np.int)\<close>: conversion to an integer drops the fraction\<close>
  "trunc x = (if 0 \<le> x then \<lfloor>x\<rfloor> else \<lceil>x\<rceil>)"

section \<open>The learning-curve slices\<close>

text \<open>
  \<^verbatim>\<open>np.linspace(start, stop, num)\<close> with its default \<^verbatim>\<open>endpoint=True\<close>: a negative \<open>num\<close> is
  a \<^verbatim>\<open>ValueError\<close>; otherwise \<^verbatim>\<open>arange(0, num) * step + start\<close> with
  \<^verbatim>\<open>step = (stop - start) / (num - 1)\<close>, the last entry overwritten with \<open>stop\<close> when
  \<open>num > 1\<close>. With \<open>num \<le> 1\<close> the samples are multiplied by \<^verbatim>\<open>stop - start\<close> instead.
\<close>

definition linspace :: "rat \<Rightarrow> rat \<Rightarrow> int \<Rightarrow> error + rat list" where
  "linspace start stop num =
     (if num < 0 then Inl ValueError
      else let n = nat num; dv = num - 1; delta = fl (stop - start);
               ar = map (\<lambda>i. fl (of_nat i)) [0..<n];
               y = (if 0 < dv then
                      let step = fl (delta / of_int dv)
                      in if step = 0 then map (\<lambda>a. fl (fl (a / of_int dv) * delta)) ar
                         else map (\<lambda>a. fl (a * step)) ar
                    else map (\<lambda>a. fl (a * delta)) ar);
               y' = map (\<lambda>v. fl (v + start)) y
           in Inr (if 1 < num then butlast y' @ [stop] else y'))"

definition slices :: "int \<Rightarrow> nat \<Rightarrow> error + int list" where
  \<comment> \<open>line 93: \<^verbatim>\<open>(np.linspace(0,1,lc+1) * len(y)).astype(np.int)[1:]\<close>\<close>
  "slices lc n =
     (case linspace 0 1 (lc + 1) of
        Inl e \<Rightarrow> Inl e
      | Inr p \<Rightarrow> Inr (drop 1 (map (\<lambda>v. trunc (fl (v * fl (of_nat n)))) p)))"

definition slice_at :: "int \<Rightarrow> nat \<Rightarrow> nat \<Rightarrow> int" where
  \<comment> \<open>the \<open>i\<close>-th entry of that array, for \<open>0 < i < lc\<close>: both products are rounded\<close>
  "slice_at lc n i = trunc (fl (fl (of_nat i * fl (1 / of_int lc)) * of_nat n))"

section \<open>The evaluator: \<^verbatim>\<open>predictAndEvaluate\<close>\<close>

text \<open>
  What the run does that can be observed: text printed to the output sink, the printed
  list of learning-curve scores, and each call of \<^verbatim>\<open>cross_val_predict\<close> (with the number
  of records it was given).
\<close>

datatype score = NaN | Score rat

datatype event = Print string | PrintScores "score list" | CrossValPredict nat

text \<open>
  A classifier is what the program uses of it: its class name and the outcome of
  \<^verbatim>\<open>cross_val_predict(classifier, X, y, cv=5, ...)\<close> on a feature matrix (a list of rows)
  and a label list. The cross-validation itself belongs to scikit-learn.
\<close>

record ('x, 'l) classifier =
  class_name :: string
  cross_val_predict :: "'x list \<Rightarrow> 'l list \<Rightarrow> error + 'l list"

definition py_prefix :: "'a list \<Rightarrow> int \<Rightarrow> 'a list" where
  \<comment> \<open>the Python slice \<^verbatim>\<open>xs[:v]\<close>\<close>
  "py_prefix xs v = (if 0 \<le> v then take (nat v) xs else take (length xs - nat (- v)) xs)"

fun cross_val_loop ::
  "('x, 'l) classifier \<Rightarrow> 'x list \<Rightarrow> 'l list \<Rightarrow> int list \<Rightarrow> 'l list list
     \<Rightarrow> event list \<times> (error + 'l list list)" where
  "cross_val_loop clf X y [] predicts = ([], Inr predicts)"
| "cross_val_loop clf X y (val # s) predicts =
     (case cross_val_predict clf (py_prefix X val) (py_prefix y val) of
        Inl e \<Rightarrow> ([CrossValPredict (length (py_prefix y val))], Inl e)
      | Inr p \<Rightarrow>
          (case cross_val_loop clf X y s (predicts @ [p]) of
             (ev, r) \<Rightarrow> (CrossValPredict (length (py_prefix y val)) # ev, r)))"

definition predictAndEvaluate ::
  "('x, 'l) classifier \<Rightarrow> 'x list \<Rightarrow> 'l list \<Rightarrow> int
     \<Rightarrow> event list \<times> (error + 'l list list)" where
  "predictAndEvaluate clf X y lc =
     (case slices lc (length y) of
        Inl e \<Rightarrow> ([], Inl e)
      | Inr s \<Rightarrow> cross_val_loop clf X y s [])"

section \<open>The reporter: \<^verbatim>\<open>printResults\<close>\<close>

text \<open>
  \<^verbatim>\<open>accuracy_score\<close> and \<^verbatim>\<open>confusion_matrix\<close> of scikit-learn: both refuse sequences of
  different lengths with a \<^verbatim>\<open>ValueError\<close>. The accuracy is the mean of the indicator of
  agreement (a double; the mean of nothing is NaN). The confusion matrix has one row per
  true label and one column per predicted label, over the sorted distinct labels that
  occur in either sequence.
\<close>

definition count_pairs :: "'l list \<Rightarrow> 'l list \<Rightarrow> 'l \<Rightarrow> 'l \<Rightarrow> nat" where
  "count_pairs y_true y_pred t p = length (filter (\<lambda>(a, b). a = t \<and> b = p) (zip y_true y_pred))"

definition accuracy_score :: "'l list \<Rightarrow> 'l list \<Rightarrow> error + score" where
  "accuracy_score y_true y_pred =
     (if length y_true \<noteq> length y_pred then Inl ValueError
      else if y_true = [] then Inr NaN
      else Inr (Score (fl (of_nat (length (filter (\<lambda>(a, b). a = b) (zip y_true y_pred)))
                            / of_nat (length y_true)))))"

definition unique_labels :: "'l::linorder list \<Rightarrow> 'l list \<Rightarrow> 'l list" where
  "unique_labels y_true y_pred = sort (remdups (y_true @ y_pred))"

definition confusion_matrix :: "'l::linorder list \<Rightarrow> 'l list \<Rightarrow> error + nat list list" where
  "confusion_matrix y_true y_pred =
     (if length y_true \<noteq> length y_pred then Inl ValueError
      else let labels = unique_labels y_true y_pred
           in Inr (map (\<lambda>t. map (\<lambda>p. count_pairs y_true y_pred t p) labels) labels))"

fun digits :: "nat \<Rightarrow> string" where
  "digits n =
     (if n < 10 then [''0123456789'' ! n]
      else digits (n div 10) @ [''0123456789'' ! (n mod 10)])"

declare digits.simps [simp del]

definition fmt5d :: "nat \<Rightarrow> string" where
  \<comment> \<open>the format field \<^verbatim>\<open>{:5d}\<close>: right-aligned in at least five columns\<close>
  "fmt5d n = replicate (5 - length (digits n)) CHR '' '' @ digits n"

fun scores_loop ::
  "'l list \<Rightarrow> 'l list list \<Rightarrow> int list \<Rightarrow> nat list \<Rightarrow> error + score list" where
  "scores_loop real_y predicts s [] = Inr []"
| "scores_loop real_y predicts s (i # is) =
     (if length s \<le> i \<or> length predicts \<le> i then Inl IndexError
      else case accuracy_score (py_prefix real_y (s ! i)) (predicts ! i) of
             Inl e \<Rightarrow> Inl e
           | Inr a \<Rightarrow>
               (case scores_loop real_y predicts s is of
                  Inl e \<Rightarrow> Inl e
                | Inr as \<Rightarrow> Inr (a # as)))"

definition learning_curve :: "'l list \<Rightarrow> 'l list list \<Rightarrow> error + score list" where
  \<comment> \<open>lines 120 to 124: the slice sizes, recomputed from the number of prediction sequences,
      and the accuracy of every sequence against that many true labels\<close>
  "learning_curve real_y predicts =
     (case linspace 0 1 (int (length predicts) + 1) of
        Inl e \<Rightarrow> Inl e
      | Inr lin \<Rightarrow>
          let p = drop 1 lin;
              s = map (\<lambda>v. trunc (fl (v * fl (of_nat (length real_y))))) p
          in scores_loop real_y predicts s [0..<length predicts])"

text \<open>
  \<^verbatim>\<open>printResults(classifier, real, predicts, f)\<close>. The text of scikit-learn's
  \<^verbatim>\<open>classification_report\<close> is a parameter. The result is what was printed and the
  exception that ended the call, if any.
\<close>

definition printResults ::
  "('l list \<Rightarrow> 'l list \<Rightarrow> error + string) \<Rightarrow> string \<Rightarrow> 'l::linorder list \<Rightarrow> 'l list list
     \<Rightarrow> event list \<times> error option" where
  "printResults classification_report classifier real_y predicts =
     (let o1 = [Print (''Classifier: '' @ classifier @ ''\<newline>'')]
      in if predicts = [] then (o1, Some IndexError)
         else case classification_report real_y (last predicts) of
           Inl e \<Rightarrow> (o1, Some e)
         | Inr rep \<Rightarrow>
             let o2 = o1 @ [Print (rep @ ''\<newline>'')]
             in case confusion_matrix real_y (last predicts) of
               Inl e \<Rightarrow> (o2, Some e)
             | Inr cm \<Rightarrow>
                 (case concat cm of
                    [tn, fp, fn, tp] \<Rightarrow>
                      let o3 = o2 @
                        [Print ''Confusion Matrix:\<newline>'',
                         Print '' a      b     <--- Classified as\<newline>'',
                         Print (fmt5d tp @ ''  '' @ fmt5d fp @ ''   a = REAL\<newline>''),
                         Print (fmt5d fn @ ''  '' @ fmt5d tn @ ''   b = FAKE\<newline>\<newline>''),
                         Print ''\<newline>'']
                      in if 1 < length predicts then
                           (case learning_curve real_y predicts of
                              Inl e \<Rightarrow> (o3, Some e)
                            | Inr scores \<Rightarrow>
                                (o3 @ [Print ''Learning curve:\<newline>'', PrintScores scores], None))
                         else (o3, None)
                  | _ \<Rightarrow> (o2, Some ValueError)))"

section \<open>The data preparer: \<^verbatim>\<open>getDatasetValues\<close>\<close>

text \<open>
  A pandas data frame: the row keys and the named columns, every column with one cell per
  row key.
\<close>

record ('i, 'c) dataframe =
  index :: "'i list"
  columns :: "(string \<times> 'c list) list"

definition loc_tolist :: "('i, 'c) dataframe \<Rightarrow> string \<Rightarrow> error + 'c list" where
  \<comment> \<open>\<^verbatim>\<open>df.loc[:, name].tolist()\<close>; a repeated column name selects a frame, which has no \<^verbatim>\<open>tolist\<close>\<close>
  "loc_tolist df name =
     (case filter (\<lambda>c. fst c = name) (columns df) of
        [] \<Rightarrow> Inl KeyError
      | [c] \<Rightarrow> Inr (snd c)
      | _ \<Rightarrow> Inl AttributeError)"

definition drop_column :: "('i, 'c) dataframe \<Rightarrow> string \<Rightarrow> error + ('i, 'c) dataframe" where
  \<comment> \<open>\<^verbatim>\<open>df.drop(name, axis=1)\<close>\<close>
  "drop_column df name =
     (if name \<in> fst ` set (columns df)
      then Inr (df\<lparr>columns := filter (\<lambda>c. fst c \<noteq> name) (columns df)\<rparr>)
      else Inl KeyError)"

definition df_values :: "('i, 'c) dataframe \<Rightarrow> 'c list list" where
  \<comment> \<open>\<^verbatim>\<open>df.values\<close>: the matrix of cells, one row per row key\<close>
  "df_values df = map (\<lambda>r. map (\<lambda>c. snd c ! r) (columns df)) [0..<length (index df)]"

text \<open>
  \<^verbatim>\<open>sklearn.utils.shuffle(X, y, Id)\<close> checks that its arguments have the same length, draws
  one shuffled \<^verbatim>\<open>arange(n)\<close> and indexes every argument with it. The drawn index list is the
  parameter \<open>perm\<close>.
\<close>

definition shuffle ::
  "'a list \<Rightarrow> 'b list \<Rightarrow> 'c list \<Rightarrow> nat list \<Rightarrow> error + ('a list \<times> 'b list \<times> 'c list)" where
  "shuffle X y Ids perm =
     (if length X \<noteq> length y \<or> length X \<noteq> length Ids then Inl ValueError
      else Inr (map (\<lambda>i. X ! i) perm, map (\<lambda>i. y ! i) perm, map (\<lambda>i. Ids ! i) perm))"

definition getDatasetValues ::
  "('i, 'c) dataframe \<Rightarrow> nat list \<Rightarrow> error + ('c list list \<times> 'c list \<times> 'i list)" where
  "getDatasetValues df perm =
     (case loc_tolist df ''Tag'' of
        Inl e \<Rightarrow> Inl e
      | Inr y \<Rightarrow>
          (case drop_column df ''Tag'' of
             Inl e \<Rightarrow> Inl e
           | Inr df' \<Rightarrow> shuffle (df_values df') y (index df') perm))"

definition well_formed :: "('i, 'c) dataframe \<Rightarrow> bool" where
  "well_formed df \<longleftrightarrow>
     distinct (map fst (columns df)) \<and>
     list_all (\<lambda>c. length (snd c) = length (index df)) (columns df)"

section \<open>Classifier selection in \<^verbatim>\<open>parseArguments\<close>\<close>

datatype kind = SVC | LinearSVC | MultinomialNB | RandomForestClassifier | MLPClassifier

definition choices :: "string list" where
  "choices = [''svc'', ''linearsvc'', ''naive_bayes'', ''randomforest'', ''all'', ''mlp'']"

definition parseArguments :: "string option \<Rightarrow> kind list option" where
  \<comment> \<open>the \<^verbatim>\<open>classifier\<close> component of the result, from the value of \<^verbatim>\<open>--classifier\<close>;
      \<open>None\<close> when \<^verbatim>\<open>argparse\<close> rejects the value and exits\<close>
  "parseArguments c =
     (if c \<noteq> None \<and> the c \<notin> set choices then None
      else let classifier = [LinearSVC, MultinomialNB, RandomForestClassifier]
           in Some (if c = Some ''linearsvc'' then [classifier ! 0]
                    else if c = Some ''naive_bayes'' then [classifier ! 1]
                    else if c = Some ''randomforest'' then [classifier ! 2]
                    else if c = Some ''mlp'' then [MLPClassifier]
                    else classifier))"

section \<open>The orchestrator: \<^verbatim>\<open>main\<close>\<close>

fun missed_loop ::
  "string list \<Rightarrow> string list \<Rightarrow> string list list \<Rightarrow> nat list \<Rightarrow> error + string list" where
  "missed_loop Ids y predicts [] = Inr []"
| "missed_loop Ids y predicts (i # is) =
     (if predicts = [] \<or> length (last predicts) \<le> i then Inl IndexError
      else if last predicts ! i \<noteq> y ! i then
        (if length Ids \<le> i then Inl IndexError
         else case missed_loop Ids y predicts is of
                Inl e \<Rightarrow> Inl e
              | Inr m \<Rightarrow> Inr ((Ids ! i @ '' Classified as '' @ last predicts ! i @ ''\<newline>'') # m))
      else missed_loop Ids y predicts is)"

fun print_args :: "string list \<Rightarrow> string" where
  \<comment> \<open>\<^verbatim>\<open>print(*xs)\<close>: the arguments separated by one space, then a newline\<close>
  "print_args [] = ''\<newline>''"
| "print_args [x] = x @ ''\<newline>''"
| "print_args (x # xs) = x @ '' '' @ print_args xs"

fun classifier_loop ::
  "(string list \<Rightarrow> string list \<Rightarrow> error + string) \<Rightarrow> ('x, string) classifier list
     \<Rightarrow> 'x list \<Rightarrow> string list \<Rightarrow> int \<Rightarrow> string list list
     \<Rightarrow> event list \<times> (error + string list list)" where
  "classifier_loop rep [] X y lc predicts = ([], Inr predicts)"
| "classifier_loop rep (clf # clfs) X y lc predicts =
     (case predictAndEvaluate clf X y lc of
        (ev1, Inl e) \<Rightarrow> (ev1, Inl e)
      | (ev1, Inr predicts') \<Rightarrow>
          (case printResults rep (class_name clf) y predicts' of
             (ev2, Some e) \<Rightarrow> (ev1 @ ev2, Inl e)
           | (ev2, None) \<Rightarrow>
               (case classifier_loop rep clfs X y lc predicts' of
                  (ev3, r) \<Rightarrow> (ev1 @ ev2 @ ev3, r))))"

definition main_dataset ::
  "(string list \<Rightarrow> string list \<Rightarrow> error + string) \<Rightarrow> (string list, string) classifier list
     \<Rightarrow> int \<Rightarrow> string \<times> (string, string) dataframe \<times> nat list
     \<Rightarrow> event list \<times> error option" where
  \<comment> \<open>the body of the loop over \<^verbatim>\<open>dataset_filenames\<close>, on the table read from the file\<close>
  "main_dataset rep classifiers lc d =
     (case d of (dataset_filename, df, perm) \<Rightarrow>
        let o0 = [Print (''Dataset: '' @ dataset_filename @ ''\<newline>'')]
        in case getDatasetValues df perm of
             Inl e \<Rightarrow> (o0, Some e)
           | Inr (X, y, Ids) \<Rightarrow>
               (case classifier_loop rep classifiers X y lc [] of
                  (ev, Inl e) \<Rightarrow> (o0 @ ev, Some e)
                | (ev, Inr predicts) \<Rightarrow>
                    let o1 = o0 @ ev @ [Print ''==============\<newline>'']
                    in case missed_loop Ids y predicts [0..<length y] of
                         Inl e \<Rightarrow> (o1, Some e)
                       | Inr missed \<Rightarrow> (o1 @ [Print (print_args missed)], None)))"

fun main ::
  "(string list \<Rightarrow> string list \<Rightarrow> error + string) \<Rightarrow> (string list, string) classifier list
     \<Rightarrow> int \<Rightarrow> (string \<times> (string, string) dataframe \<times> nat list) list
     \<Rightarrow> event list \<times> error option" where
  "main rep classifiers lc [] = ([], None)"
| "main rep classifiers lc (d # ds) =
     (case main_dataset rep classifiers lc d of
        (ev, Some e) \<Rightarrow> (ev, Some e)
      | (ev, None) \<Rightarrow>
          (case main rep classifiers lc ds of (ev', r) \<Rightarrow> (ev @ ev', r)))"

section \<open>Example data\<close>

text \<open>A classifier whose cross-validated predictions are the true labels, and ten records.\<close>

definition perfect :: "('x, 'l) classifier" where
  "perfect = \<lparr>class_name = ''LinearSVC'', cross_val_predict = (\<lambda>X y. Inr y)\<rparr>"

definition ten_labels :: "string list" where
  "ten_labels = [''REAL'', ''FAKE'', ''REAL'', ''FAKE'', ''REAL'',
                 ''FAKE'', ''REAL'', ''FAKE'', ''REAL'', ''FAKE'']"

definition ten_rows :: "string list list" where
  "ten_rows = [[''0''], [''1''], [''2''], [''3''], [''4''], [''5''], [''6''], [''7''], [''8''], [''9'']]"

definition small_table :: "(string, string) dataframe" where
  "small_table =
     \<lparr>index = [''n1'', ''n2'', ''n3''],
      columns = [(''words'', [''10'', ''20'', ''30'']), (''Tag'', [''REAL'', ''FAKE'', ''REAL''])]\<rparr>"

definition untagged_table :: "(string, string) dataframe" where
  "untagged_table =
     \<lparr>index = [''n1'', ''n2'', ''n3''], columns = [(''words'', [''10'', ''20'', ''30''])]\<rparr>"

definition plain_report :: "string list \<Rightarrow> string list \<Rightarrow> error + string" where
  "plain_report y_true y_pred = Inr ''report''"

text \<open>
  A classification report that, as scikit-learn's, refuses sequences of different lengths.
\<close>

definition checked_report :: "string list \<Rightarrow> string list \<Rightarrow> error + string" where
  "checked_report y_true y_pred =
     (if length y_true \<noteq> length y_pred then Inl ValueError else Inr ''report'')"


section \<open>Facts about the rounding\<close>

lemma pow2_less_iff: "(2::rat) powi a < 2 powi b \<longleftrightarrow> a < b"
proof
  assume l: "(2::rat) powi a < 2 powi b"
  show "a < b"
  proof (rule ccontr)
    assume "\<not> a < b"
    then have "b \<le> a" by simp
    then have "(2::rat) powi b \<le> 2 powi a" by (rule power_int_increasing) simp
    with l show False by simp
  qed
next
  assume "a < b"
  then show "(2::rat) powi a < 2 powi b" by (rule power_int_strict_increasing) simp
qed

lemma pow2_le_iff: "(2::rat) powi a \<le> 2 powi b \<longleftrightarrow> a \<le> b"
  using pow2_less_iff [of b a] by (simp add: not_less [symmetric])

lemma pow2_Suc: "(2::rat) powi (e + 1) = 2 * 2 powi e"
  by (simp add: power_int_add)

lemma bitlen_powi:
  assumes "0 < p"
  shows "2 powi (bitlen p - 1) \<le> (of_int p :: rat)" and "(of_int p :: rat) < 2 powi bitlen p"
proof -
  have b1: "1 \<le> bitlen p"
    using assms bitlen_eq_zero_iff [of p] bitlen_nonneg [of p] by linarith
  from bitlen_bounds [OF assms]
  have lo: "2 ^ nat (bitlen p - 1) \<le> p" and hi: "p < 2 ^ nat (bitlen p)" by simp_all
  have "(of_int (2 ^ nat (bitlen p - 1)) :: rat) \<le> of_int p"
    using lo by (simp only: of_int_le_iff)
  moreover have "(2::rat) powi (bitlen p - 1) = 2 ^ nat (bitlen p - 1)"
    using b1 by (simp add: power_int_def)
  ultimately show "2 powi (bitlen p - 1) \<le> (of_int p :: rat)" by simp
  have "(of_int p :: rat) < of_int (2 ^ nat (bitlen p))"
    using hi by (simp only: of_int_less_iff)
  moreover have "(2::rat) powi (bitlen p) = 2 ^ nat (bitlen p)"
    using b1 by (simp add: power_int_def)
  ultimately show "(of_int p :: rat) < 2 powi bitlen p" by simp
qed

lemma ilog2_bounds:
  assumes "0 < x"
  shows "2 powi ilog2 x \<le> x" and "x < 2 powi (ilog2 x + 1)"
proof -
  obtain p q where pq: "quotient_of x = (p, q)" by (cases "quotient_of x")
  have q: "0 < q" using pq by (rule quotient_of_denom_pos)
  have x: "x = of_int p / of_int q" using pq by (rule quotient_of_div)
  have p: "0 < p"
    using assms q unfolding x by (simp add: zero_less_divide_iff)
  define k where "k = bitlen p - bitlen q"
  have il: "ilog2 x = (if 2 powi k \<le> x then k else k - 1)"
    by (simp add: ilog2_def pq k_def Let_def)
  have qpos: "(0::rat) < of_int q" using q by simp
  have lo: "2 powi (k - 1) \<le> x"
  proof -
    have "(2::rat) powi (k - 1) * of_int q \<le> 2 powi (k - 1) * 2 powi bitlen q"
      using bitlen_powi(2) [OF q] by (intro mult_left_mono) simp_all
    also have "\<dots> = 2 powi (bitlen p - 1)"
      by (simp add: k_def power_int_add [symmetric])
    also have "\<dots> \<le> of_int p" by (rule bitlen_powi(1) [OF p])
    finally show ?thesis using qpos unfolding x by (simp add: pos_le_divide_eq)
  qed
  have hi: "x < 2 powi (k + 1)"
  proof -
    have "(of_int p :: rat) < 2 powi bitlen p" by (rule bitlen_powi(2) [OF p])
    also have "\<dots> = 2 powi (k + 1) * 2 powi (bitlen q - 1)"
      by (simp add: k_def power_int_add [symmetric])
    also have "\<dots> \<le> 2 powi (k + 1) * of_int q"
      using bitlen_powi(1) [OF q] by (intro mult_left_mono) simp_all
    finally show ?thesis using qpos unfolding x by (simp add: pos_divide_less_eq)
  qed
  show "2 powi ilog2 x \<le> x" using lo by (simp add: il)
  show "x < 2 powi (ilog2 x + 1)" using hi by (auto simp add: il)
qed

lemma ilog2_unique:
  assumes "2 powi e \<le> x" and "x < 2 powi (e + 1)"
  shows "ilog2 x = e"
proof -
  have "(0::rat) < 2 powi e" by simp
  with assms(1) have x: "0 < x" by linarith
  from ilog2_bounds [OF x] assms
  have "(2::rat) powi ilog2 x < 2 powi (e + 1)" and "(2::rat) powi e < 2 powi (ilog2 x + 1)"
    by linarith+
  then show ?thesis by (simp add: pow2_less_iff)
qed

lemma ilog2_mono:
  assumes "0 < x" and "x \<le> y"
  shows "ilog2 x \<le> ilog2 y"
proof -
  have y: "0 < y" using assms by linarith
  have "(2::rat) powi ilog2 x < 2 powi (ilog2 y + 1)"
    using ilog2_bounds(1) [OF assms(1)] ilog2_bounds(2) [OF y] assms(2) by linarith
  then show ?thesis by (simp add: pow2_less_iff)
qed

lemma rne_of_int: "rne (of_int n) = n"
  by (simp add: rne_def)

lemma rne_range: "\<lfloor>x\<rfloor> \<le> rne x" "rne x \<le> \<lfloor>x\<rfloor> + 1"
  by (simp_all add: rne_def Let_def)

lemma rne_mono:
  assumes "x \<le> y"
  shows "rne x \<le> rne y"
proof (cases "\<lfloor>x\<rfloor> < \<lfloor>y\<rfloor>")
  case True
  then show ?thesis using rne_range(2) [of x] rne_range(1) [of y] by linarith
next
  case False
  then have eq: "\<lfloor>x\<rfloor> = \<lfloor>y\<rfloor>" using floor_mono [OF assms] by linarith
  show ?thesis using assms by (auto simp add: rne_def Let_def eq)
qed

lemma rne_ge: "of_int m \<le> x \<Longrightarrow> m \<le> rne x"
  using rne_mono [of "of_int m" x] by (simp add: rne_of_int)

lemma rne_le: "x \<le> of_int m \<Longrightarrow> rne x \<le> m"
  using rne_mono [of x "of_int m"] by (simp add: rne_of_int)

lemma fl_0: "fl 0 = 0"
  by (simp add: fl_def)

lemma fl_pos:
  assumes "2 powi e \<le> x" and "x < 2 powi (e + 1)"
  shows "fl x = of_int (rne (x / 2 powi (e - 52))) * 2 powi (e - 52)"
proof -
  have "(0::rat) < 2 powi e" by simp
  with assms(1) have x: "0 < x" by linarith
  show ?thesis using x by (simp add: fl_def Let_def ilog2_unique [OF assms])
qed

lemma fl_exact:
  assumes "2 powi e \<le> x" and "x < 2 powi (e + 1)" and "x = of_int m * 2 powi (e - 52)"
  shows "fl x = x"
proof -
  have "x / 2 powi (e - 52) = of_int m" by (simp add: assms(3))
  then show ?thesis by (simp add: fl_pos [OF assms(1,2)] rne_of_int assms(3) [symmetric])
qed

lemma pow2_split: "(2::rat) powi e = 2 ^ 52 * 2 powi (e - 52)"
proof -
  have "(2::rat) powi (52 + (e - 52)) = 2 powi 52 * 2 powi (e - 52)"
    by (rule power_int_add) simp
  moreover have "(2::rat) powi 52 = 2 ^ 52" by (simp only: power_int_numeral)
  moreover have "52 + (e - 52) = e" by simp
  ultimately show ?thesis by (simp only:)
qed

lemma pow2_split': "(2::rat) powi (e + 1) = 2 ^ 53 * 2 powi (e - 52)"
proof -
  have "(2::rat) powi (e + 1) = 2 * (2 ^ 52 * 2 powi (e - 52))"
    using pow2_split [of e] by (simp only: pow2_Suc)
  then show ?thesis by simp
qed

lemma fl_binade:
  assumes "2 powi e \<le> x" and "x < 2 powi (e + 1)"
  shows "2 powi e \<le> fl x" and "fl x \<le> 2 powi (e + 1)"
proof -
  define u where "u = (2::rat) powi (e - 52)"
  have u: "0 < u" by (simp add: u_def)
  have lo: "(2::rat) powi e = of_int (2 ^ 52) * u"
    using pow2_split [of e] by (simp add: u_def)
  have hi: "(2::rat) powi (e + 1) = of_int (2 ^ 53) * u"
    using pow2_split' [of e] by (simp add: u_def)
  have f: "fl x = of_int (rne (x / u)) * u"
    unfolding u_def by (rule fl_pos [OF assms])
  have "of_int (2 ^ 52) * u \<le> x" using assms(1) by (simp only: lo)
  then have "of_int (2 ^ 52) \<le> x / u" using u by (simp only: pos_le_divide_eq)
  then have "2 ^ 52 \<le> rne (x / u)" by (rule rne_ge)
  then have "(of_int (2 ^ 52) :: rat) \<le> of_int (rne (x / u))" by (simp only: of_int_le_iff)
  then have "of_int (2 ^ 52) * u \<le> of_int (rne (x / u)) * u"
    using u by (intro mult_right_mono) simp_all
  then show "2 powi e \<le> fl x" by (simp only: lo f)
  have "x \<le> of_int (2 ^ 53) * u" using assms(2) by (simp only: hi)
  then have "x / u \<le> of_int (2 ^ 53)" using u by (simp only: pos_divide_le_eq)
  then have "rne (x / u) \<le> 2 ^ 53" by (rule rne_le)
  then have "(of_int (rne (x / u)) :: rat) \<le> of_int (2 ^ 53)" by (simp only: of_int_le_iff)
  then have "of_int (rne (x / u)) * u \<le> of_int (2 ^ 53) * u"
    using u by (intro mult_right_mono) simp_all
  then show "fl x \<le> 2 powi (e + 1)" by (simp only: hi f)
qed

lemma fl_mono_pos:
  assumes "0 < x" and "x \<le> y"
  shows "fl x \<le> fl y"
proof -
  have y: "0 < y" using assms by linarith
  note bx = ilog2_bounds [OF assms(1)] and bz = ilog2_bounds [OF y]
  show ?thesis
  proof (cases "ilog2 x = ilog2 y")
    case True
    let ?u = "(2::rat) powi (ilog2 y - 52)"
    have "x / ?u \<le> y / ?u" using assms(2) by (simp add: divide_right_mono)
    then have "rne (x / ?u) \<le> rne (y / ?u)" by (rule rne_mono)
    then have "(of_int (rne (x / ?u)) :: rat) * ?u \<le> of_int (rne (y / ?u)) * ?u"
      by (intro mult_right_mono) simp_all
    then show ?thesis
      using fl_pos [OF bx] fl_pos [OF bz] by (simp add: True)
  next
    case False
    then have "ilog2 x + 1 \<le> ilog2 y" using ilog2_mono [OF assms] by linarith
    then have "(2::rat) powi (ilog2 x + 1) \<le> 2 powi ilog2 y" by (simp add: pow2_le_iff)
    then show ?thesis using fl_binade(2) [OF bx] fl_binade(1) [OF bz] by linarith
  qed
qed

lemma fl_nonneg: "0 \<le> x \<Longrightarrow> 0 \<le> fl x"
proof (cases "x = 0")
  case True then show ?thesis by (simp add: fl_0)
next
  case False
  assume "0 \<le> x"
  with False have x: "0 < x" by simp
  have "(0::rat) < 2 powi ilog2 x" by simp
  then show ?thesis using fl_binade(1) [OF ilog2_bounds [OF x]] by linarith
qed

lemma fl_mono:
  assumes "0 \<le> x" and "x \<le> y"
  shows "fl x \<le> fl y"
proof (cases "x = 0")
  case True
  then show ?thesis using fl_nonneg [of y] assms by (simp add: fl_0)
next
  case False
  then show ?thesis using assms fl_mono_pos [of x y] by simp
qed

lemma fl_idem:
  assumes "0 \<le> x"
  shows "fl (fl x) = fl x"
proof (cases "x = 0")
  case True then show ?thesis by (simp add: fl_0)
next
  case False
  with assms have x: "0 < x" by simp
  define e where "e = ilog2 x"
  note b = ilog2_bounds [OF x, folded e_def]
  define m where "m = rne (x / 2 powi (e - 52))"
  have f: "fl x = of_int m * 2 powi (e - 52)" unfolding m_def by (rule fl_pos [OF b])
  show ?thesis
  proof (cases "fl x < 2 powi (e + 1)")
    case True
    show ?thesis by (rule fl_exact [OF fl_binade(1) [OF b] True f])
  next
    case False
    then have eq: "fl x = 2 powi (e + 1)" using fl_binade(2) [OF b] by linarith
    have "fl x = of_int (2 ^ 52) * 2 powi (e + 1 - 52)"
      using pow2_split [of "e + 1"] by (simp only: eq of_int_power of_int_numeral)
    moreover have "fl x < 2 powi (e + 1 + 1)" by (simp add: eq pow2_less_iff)
    moreover have "2 powi (e + 1) \<le> fl x" by (simp add: eq)
    ultimately show ?thesis by (intro fl_exact)
  qed
qed

lemma fl_of_nat:
  assumes "n < 2 ^ 53"
  shows "fl (of_nat n) = of_nat n"
proof (cases "n = 0")
  case True then show ?thesis by (simp add: fl_0)
next
  case False
  then have x: "(0::rat) < of_nat n" by simp
  define e where "e = ilog2 (of_nat n)"
  note b = ilog2_bounds [OF x, folded e_def]
  have "(of_nat n :: rat) < of_nat (2 ^ 53)" using assms by (simp only: of_nat_less_iff)
  then have "(of_nat n :: rat) < 2 powi 53" by simp
  with b(1) have "(2::rat) powi e < 2 powi 53" by linarith
  then have "e < 53" by (simp only: pow2_less_iff)
  then have e: "e \<le> 52" by simp
  have "(2::rat) powi (e - 52) * 2 powi (52 - e) = 1"
    by (simp add: power_int_add [symmetric])
  moreover have "(2::rat) powi (52 - e) = of_int (2 ^ nat (52 - e))"
    using e by (simp add: power_int_def)
  ultimately have "(of_nat n :: rat) = of_int (int n * 2 ^ nat (52 - e)) * 2 powi (e - 52)"
    by (simp add: mult.assoc mult.commute)
  then show ?thesis by (rule fl_exact [OF b])
qed

lemma trunc_of_nat: "trunc (of_nat n) = int n"
  by (simp add: trunc_def)

lemma trunc_mono: "0 \<le> x \<Longrightarrow> x \<le> y \<Longrightarrow> trunc x \<le> trunc y"
  by (simp add: trunc_def floor_mono)

lemma trunc_nonneg: "0 \<le> x \<Longrightarrow> 0 \<le> trunc x"
  by (simp add: trunc_def)

section \<open>Facts about the slices\<close>

lemma fl_1: "fl 1 = 1"
  using fl_of_nat [of 1] by simp

lemma fl_pos_pos:
  assumes "0 < x"
  shows "0 < fl x"
proof -
  have "(0::rat) < 2 powi ilog2 x" by simp
  then show ?thesis using fl_binade(1) [OF ilog2_bounds [OF assms]] by linarith
qed

lemma rne_upper: "of_int (rne x) \<le> x + 1 / 2"
proof -
  define f where "f = \<lfloor>x\<rfloor>"
  have 1: "of_int f \<le> x" unfolding f_def by simp
  have 2: "x < of_int f + 1" unfolding f_def by linarith
  show ?thesis
    unfolding rne_def Let_def f_def [symmetric] using 1 2 by auto
qed

lemma fl_upper:
  assumes "0 < x"
  shows "fl x \<le> x + x / 2 ^ 53"
proof -
  define e where "e = ilog2 x"
  define u where "u = (2::rat) powi (e - 52)"
  note b = ilog2_bounds [OF assms, folded e_def]
  have u: "0 < u" by (simp add: u_def)
  have f: "fl x = of_int (rne (x / u)) * u" unfolding u_def by (rule fl_pos [OF b])
  have "2 ^ 52 * u \<le> x" using b(1) pow2_split [of e] by (simp only: u_def)
  then have ux: "u / 2 \<le> x / 2 ^ 53" by simp
  have "of_int (rne (x / u)) * u \<le> (x / u + 1 / 2) * u"
    using u rne_upper [of "x / u"] by (intro mult_right_mono) simp_all
  also have "\<dots> = x + u / 2" using u by (simp add: algebra_simps)
  finally show ?thesis using ux f by linarith
qed

lemma upt_Suc_nat: "0 \<le> (k::int) \<Longrightarrow> [0..<nat (k + 1)] = [0..<nat k] @ [nat k]"
  by (simp add: nat_add_distrib)

lemma linspace_unit:
  assumes "1 \<le> lc"
  shows "linspace 0 1 (lc + 1) =
    Inr (map (\<lambda>i. fl (fl (fl (of_nat i) * fl (1 / of_int lc)) + 0)) [0..<nat lc] @ [1])"
proof -
  have "(0::rat) < 1 / of_int lc" using assms by simp
  then have step: "fl (1 / of_int lc) \<noteq> 0" using fl_pos_pos [of "1 / of_int lc"] by simp
  have up: "[0..<nat (lc + 1)] = [0..<nat lc] @ [nat lc]"
    using assms by (intro upt_Suc_nat) simp
  show ?thesis
    using assms step by (simp add: linspace_def Let_def fl_1 up o_def)
qed

lemma linspace_zero: "linspace 0 1 1 = Inr [0]"
  by (simp add: linspace_def Let_def fl_0)

lemma slices_unit:
  assumes "1 \<le> lc" and "lc < 2 ^ 53" and "n < 2 ^ 53"
  shows "slices lc n = Inr (map (slice_at lc n) [1..<nat lc] @ [int n])"
proof -
  define step where "step = fl (1 / of_int lc)"
  define g where "g = (\<lambda>v. trunc (fl (v * fl (of_nat n))))"
  define f where "f = (\<lambda>i::nat. fl (fl (fl (of_nat i) * step) + 0))"
  have step: "0 \<le> step" unfolding step_def using assms(1) by (intro fl_nonneg) simp
  have n: "fl (of_nat n) = of_nat n" by (rule fl_of_nat [OF assms(3)])
  have el: "g (f i) = slice_at lc n i" if "i < nat lc" for i
  proof -
    have "nat lc < 2 ^ 53" using assms(1,2) by (simp add: nat_less_iff)
    with that have "i < 2 ^ 53" by (rule less_trans)
    then have i: "fl (of_nat i) = of_nat i" by (rule fl_of_nat)
    have "0 \<le> of_nat i * step" using step by simp
    then have "fl (fl (of_nat i * step)) = fl (of_nat i * step)" by (rule fl_idem)
    then show ?thesis by (simp add: i n slice_at_def step_def g_def f_def)
  qed
  have lin: "linspace 0 1 (lc + 1) = Inr (map f [0..<nat lc] @ [1])"
    unfolding f_def step_def by (rule linspace_unit [OF assms(1)])
  have s1: "slices lc n = Inr (drop 1 (map g (map f [0..<nat lc] @ [1])))"
    by (simp add: slices_def lin g_def)
  have ne: "1 \<le> nat lc" using assms(1) by simp
  have s2: "drop 1 (map g (map f [0..<nat lc] @ [1])) = map (\<lambda>i. g (f i)) [1..<nat lc] @ [g 1]"
    using ne by (simp add: drop_map)
  have s3: "map (\<lambda>i. g (f i)) [1..<nat lc] = map (slice_at lc n) [1..<nat lc]"
    by (rule map_cong) (simp_all add: el)
  have s4: "g 1 = int n" by (simp add: g_def n trunc_of_nat)
  show ?thesis by (simp only: s1 s2 s3 s4)
qed

lemma step_le:
  assumes "1 \<le> lc" and "lc < 2 ^ 53" and "i < nat lc"
  shows "of_nat i * fl (1 / of_int lc) \<le> 1"
proof -
  define x :: rat where "x = 1 / of_int lc"
  have x: "0 < x" unfolding x_def using assms(1) by simp
  have lcx: "of_int lc * x = 1" unfolding x_def using assms(1) by simp
  have i: "(of_nat i :: rat) \<le> of_int lc - 1"
  proof -
    have "int i \<le> lc - 1" using assms(1,3) by linarith
    then have "(of_int (int i) :: rat) \<le> of_int (lc - 1)" by (simp only: of_int_le_iff)
    then show ?thesis by simp
  qed
  have lc53: "(of_int lc :: rat) \<le> 2 ^ 53"
  proof -
    have "(of_int lc :: rat) < of_int (2 ^ 53)" using assms(2) by (simp only: of_int_less_iff)
    then show ?thesis by simp
  qed
  define c :: rat where "c = 1 / 2 ^ 53"
  have up: "fl x \<le> x + x * c" using fl_upper [OF x] by (simp add: c_def)
  have cx: "c \<le> x"
  proof -
    have "1 \<le> x * 2 ^ 53" using lc53 assms(1) unfolding x_def by (simp add: pos_le_divide_eq)
    then show ?thesis by (simp add: c_def pos_divide_le_eq)
  qed
  have "of_nat i * fl x \<le> (of_int lc - 1) * fl x"
    using i fl_nonneg [of x] x by (intro mult_right_mono) simp_all
  also have "\<dots> \<le> (of_int lc - 1) * (x + x * c)"
    using up assms(1) by (intro mult_left_mono) simp_all
  also have "\<dots> = of_int lc * x + (of_int lc * x) * c - x - x * c"
    by (simp add: algebra_simps)
  also have "\<dots> = 1 + (c - x) - x * c" by (simp only: lcx)
  also have "\<dots> \<le> 1"
  proof -
    have "0 \<le> x * c" using x by (simp add: c_def)
    then show ?thesis using cx by linarith
  qed
  finally show ?thesis unfolding x_def .
qed

lemma slice_at_mono:
  assumes "1 \<le> lc" and "i \<le> j"
  shows "slice_at lc n i \<le> slice_at lc n j"
proof -
  define step where "step = fl (1 / of_int lc)"
  have step: "0 \<le> step" unfolding step_def using assms(1) by (intro fl_nonneg) simp
  have "of_nat i * step \<le> of_nat j * step"
    using assms(2) step by (intro mult_right_mono) simp_all
  moreover have a: "0 \<le> of_nat i * step" using step by simp
  ultimately have b: "fl (of_nat i * step) \<le> fl (of_nat j * step)" by (rule fl_mono [rotated])
  have c: "0 \<le> fl (of_nat i * step)" using a by (rule fl_nonneg)
  have "fl (of_nat i * step) * of_nat n \<le> fl (of_nat j * step) * of_nat n"
    using b by (intro mult_right_mono) simp_all
  moreover have d: "0 \<le> fl (of_nat i * step) * of_nat n" using c by simp
  ultimately have "fl (fl (of_nat i * step) * of_nat n) \<le> fl (fl (of_nat j * step) * of_nat n)"
    by (rule fl_mono [rotated])
  moreover have "0 \<le> fl (fl (of_nat i * step) * of_nat n)" using d by (rule fl_nonneg)
  ultimately show ?thesis unfolding slice_at_def step_def by (rule trunc_mono [rotated])
qed

lemma slice_at_nonneg:
  assumes "1 \<le> lc"
  shows "0 \<le> slice_at lc n i"
proof -
  have "0 \<le> fl (1 / of_int lc)" using assms by (intro fl_nonneg) simp
  then have "0 \<le> of_nat i * fl (1 / of_int lc)" by simp
  then have "0 \<le> fl (of_nat i * fl (1 / of_int lc))" by (rule fl_nonneg)
  then have "0 \<le> fl (of_nat i * fl (1 / of_int lc)) * of_nat n" by simp
  then have "0 \<le> fl (fl (of_nat i * fl (1 / of_int lc)) * of_nat n)" by (rule fl_nonneg)
  then show ?thesis unfolding slice_at_def by (rule trunc_nonneg)
qed

lemma slice_at_le:
  assumes "1 \<le> lc" and "lc < 2 ^ 53" and "n < 2 ^ 53" and "i < nat lc"
  shows "slice_at lc n i \<le> int n"
proof -
  define v where "v = fl (of_nat i * fl (1 / of_int lc))"
  have "0 \<le> fl (1 / of_int lc)" using assms(1) by (intro fl_nonneg) simp
  then have a: "0 \<le> of_nat i * fl (1 / of_int lc)" by simp
  have "v \<le> fl 1" unfolding v_def using a step_le [OF assms(1,2,4)] by (rule fl_mono)
  then have v1: "v \<le> 1" by (simp add: fl_1)
  have v0: "0 \<le> v" unfolding v_def using a by (rule fl_nonneg)
  have "v * of_nat n \<le> 1 * of_nat n" using v1 by (intro mult_right_mono) simp_all
  then have "v * of_nat n \<le> of_nat n" by simp
  moreover have p: "0 \<le> v * of_nat n" using v0 by simp
  ultimately have "fl (v * of_nat n) \<le> fl (of_nat n)" by (rule fl_mono [rotated])
  then have "fl (v * of_nat n) \<le> of_nat n" by (simp add: fl_of_nat [OF assms(3)])
  moreover have "0 \<le> fl (v * of_nat n)" using p by (rule fl_nonneg)
  ultimately have "trunc (fl (v * of_nat n)) \<le> trunc (of_nat n)" by (rule trunc_mono [rotated])
  then show ?thesis by (simp add: slice_at_def v_def trunc_of_nat)
qed

lemma sorted_map_upt:
  assumes "\<And>i j. i \<le> j \<Longrightarrow> f i \<le> (f j :: int)"
  shows "sorted (map f [a..<b])"
proof -
  have "sorted_wrt (\<lambda>x y. f x \<le> f y) [a..<b]"
    by (rule sorted_wrt_mono_rel [of _ "(\<le>)"]) (simp_all add: assms)
  then show ?thesis by (simp add: sorted_map)
qed

lemma slices_props:
  assumes "1 \<le> lc" and "lc < 2 ^ 53" and "n < 2 ^ 53" and "slices lc n = Inr s"
  shows "length s = nat lc" and "last s = int n" and "sorted s"
    and "\<And>v. v \<in> set s \<Longrightarrow> 0 \<le> v \<and> v \<le> int n"
    and "\<And>i. i < nat lc - 1 \<Longrightarrow> s ! i = slice_at lc n (i + 1)"
proof -
  have s: "s = map (slice_at lc n) [1..<nat lc] @ [int n]"
    using slices_unit [OF assms(1-3)] assms(4) by simp
  show "length s = nat lc" using assms(1) by (simp add: s)
  show "last s = int n" by (simp add: s)
  have le: "slice_at lc n i \<le> int n" if "i < nat lc" for i
    using that by (rule slice_at_le [OF assms(1-3)])
  show "sorted s"
    unfolding s by (auto simp add: sorted_append le intro!: sorted_map_upt slice_at_mono [OF assms(1)])
  show "0 \<le> v \<and> v \<le> int n" if "v \<in> set s" for v
    using that unfolding s by (auto simp add: le slice_at_nonneg [OF assms(1)])
  show "s ! i = slice_at lc n (i + 1)" if "i < nat lc - 1" for i
    using that unfolding s by (simp add: nth_append)
qed

lemma py_prefix_take: "0 \<le> v \<Longrightarrow> py_prefix xs v = take (nat v) xs"
  by (simp add: py_prefix_def)

lemma take_length_take: "take (length (take k xs)) xs = take k xs"
proof (cases "k \<le> length xs")
  case True
  then show ?thesis by (simp add: min_absorb2)
next
  case False
  then have "length xs \<le> k" by simp
  then show ?thesis by (simp add: min_absorb1)
qed

lemma py_prefix_is_take: "py_prefix xs v = take (length (py_prefix xs v)) xs"
proof (cases "0 \<le> v")
  case True
  then have "py_prefix xs v = take (nat v) xs" by (simp add: py_prefix_def)
  then show ?thesis by (simp only: take_length_take)
next
  case False
  then have "py_prefix xs v = take (length xs - nat (- v)) xs" by (simp add: py_prefix_def)
  then show ?thesis by (simp only: take_length_take)
qed

lemma cross_val_loop_ok:
  assumes "\<And>v. v \<in> set s \<Longrightarrow> cross_val_predict clf (py_prefix X v) (py_prefix y v) = Inr (f v)"
  shows "cross_val_loop clf X y s acc =
    (map (\<lambda>v. CrossValPredict (length (py_prefix y v))) s, Inr (acc @ map f s))"
  using assms by (induction s arbitrary: acc) simp_all

lemma fl_quarters:
  "fl (1 / 4) = 1 / 4" "fl (1 / 2) = 1 / 2" "fl (3 / 4) = 3 / 4"
  using fl_pos [of "- 2" "1 / 4"] fl_pos [of "- 1" "1 / 2"] fl_pos [of "- 1" "3 / 4"]
  by (simp_all add: rne_def Let_def)

lemma fl_halves:
  "fl (5 / 2) = 5 / 2" "fl 5 = 5" "fl (15 / 2) = 15 / 2"
  using fl_pos [of 1 "5 / 2"] fl_pos [of 2 5] fl_pos [of 2 "15 / 2"]
  by (simp_all add: rne_def Let_def)

lemma trunc_eqI: "0 \<le> x \<Longrightarrow> of_int a \<le> x \<Longrightarrow> x < of_int a + 1 \<Longrightarrow> trunc x = a"
  by (simp add: trunc_def floor_eq_iff)

lemma slice_at_4_10:
  "slice_at 4 10 (Suc 0) = 2" "slice_at 4 10 2 = 5" "slice_at 4 10 3 = 7"
  by (simp_all add: slice_at_def fl_quarters fl_halves trunc_eqI)

lemma slice_at_4_1:
  "slice_at 4 (Suc 0) (Suc 0) = 0" "slice_at 4 (Suc 0) 2 = 0" "slice_at 4 (Suc 0) 3 = 0"
  by (simp_all add: slice_at_def fl_quarters trunc_eqI)

lemma upt_1_4: "[Suc 0..<4] = [Suc 0, 2, 3]"
  by (simp add: upt_rec)

lemma slices_4_10: "slices 4 10 = Inr [2, 5, 7, 10]"
  using slices_unit [of 4 10] by (simp add: upt_1_4 slice_at_4_10)

lemma slices_4_1: "slices 4 1 = Inr [0, 0, 0, 1]"
  using slices_unit [of 4 1] by (simp add: upt_1_4 slice_at_4_1)

lemma predictAndEvaluate_ok:
  assumes s: "slices lc (length y) = Inr s"
    and nonneg: "\<And>v. v \<in> set s \<Longrightarrow> 0 \<le> v"
    and cv: "\<And>v. v \<in> set s \<Longrightarrow>
      \<exists>p. cross_val_predict clf (take (nat v) X) (take (nat v) y) = Inr p"
  shows "predictAndEvaluate clf X y lc =
    (map (\<lambda>v. CrossValPredict (length (take (nat v) y))) s,
     Inr (map (\<lambda>v. projr (cross_val_predict clf (take (nat v) X) (take (nat v) y))) s))"
proof -
  let ?f = "\<lambda>v. projr (cross_val_predict clf (take (nat v) X) (take (nat v) y))"
  have "cross_val_predict clf (py_prefix X v) (py_prefix y v) = Inr (?f v)" if "v \<in> set s" for v
    using cv [OF that] nonneg [OF that] by (auto simp add: py_prefix_take)
  then have "cross_val_loop clf X y s [] =
      (map (\<lambda>v. CrossValPredict (length (py_prefix y v))) s, Inr ([] @ map ?f s))"
    by (rule cross_val_loop_ok)
  moreover have "map (\<lambda>v. CrossValPredict (length (py_prefix y v))) s
      = map (\<lambda>v. CrossValPredict (length (take (nat v) y))) s"
    by (rule map_cong) (simp_all add: py_prefix_take nonneg)
  ultimately show ?thesis by (simp add: predictAndEvaluate_def s)
qed

section \<open>Facts about the data preparer\<close>

lemma filter_key_unique:
  assumes "distinct (map fst cs)" and "k \<in> fst ` set cs"
  shows "\<exists>v. filter (\<lambda>c. fst c = k) cs = [(k, v)] \<and> (k, v) \<in> set cs"
  using assms
proof (induction cs)
  case Nil
  then show ?case by simp
next
  case (Cons c cs)
  show ?case
  proof (cases "fst c = k")
    case True
    with Cons.prems(1) have "k \<notin> fst ` set cs" by auto
    then have "filter (\<lambda>c. fst c = k) cs = []" by (auto simp add: filter_empty_conv)
    with True show ?thesis by (cases c) auto
  next
    case False
    with Cons.prems have "distinct (map fst cs)" and "k \<in> fst ` set cs" by auto
    from Cons.IH [OF this] False show ?thesis by auto
  qed
qed

lemma loc_tolist_missing: "name \<notin> fst ` set (columns df) \<Longrightarrow> loc_tolist df name = Inl KeyError"
proof -
  assume "name \<notin> fst ` set (columns df)"
  then have "filter (\<lambda>c. fst c = name) (columns df) = []"
    by (auto simp add: filter_empty_conv)
  then show ?thesis by (simp add: loc_tolist_def)
qed

lemma loc_tolist_present:
  assumes "well_formed df" and "name \<in> fst ` set (columns df)"
  shows "\<exists>v. loc_tolist df name = Inr v \<and> length v = length (index df)"
proof -
  from assms have "distinct (map fst (columns df))" by (simp add: well_formed_def)
  from filter_key_unique [OF this assms(2)] obtain v
    where f: "filter (\<lambda>c. fst c = name) (columns df) = [(name, v)]"
      and m: "(name, v) \<in> set (columns df)" by blast
  from assms(1) m have "length v = length (index df)"
    by (auto simp add: well_formed_def list_all_iff)
  then show ?thesis by (simp add: loc_tolist_def f)
qed

lemma length_df_values: "length (df_values df) = length (index df)"
  by (simp add: df_values_def)

lemma mset_map_nth_perm:
  assumes "mset perm = mset [0..<length xs]"
  shows "mset (map (\<lambda>i. xs ! i) perm) = mset xs"
proof -
  have "mset (map (\<lambda>i. xs ! i) perm) = image_mset (\<lambda>i. xs ! i) (mset perm)" by simp
  also have "\<dots> = image_mset (\<lambda>i. xs ! i) (mset [0..<length xs])" by (simp only: assms)
  also have "\<dots> = mset (map (\<lambda>i. xs ! i) [0..<length xs])" by simp
  also have "\<dots> = mset xs" by (simp only: map_nth)
  finally show ?thesis .
qed

lemma zip3_map:
  "zip (map f p) (zip (map g p) (map h p)) = map (\<lambda>i. (f i, g i, h i)) p"
  by (induction p) simp_all

lemma zip3_nth:
  assumes "length ys = length xs" and "length zs = length xs"
  shows "map (\<lambda>i. (xs ! i, ys ! i, zs ! i)) [0..<length xs] = zip xs (zip ys zs)"
  using assms by (intro nth_equalityI) simp_all

lemma shuffle_ok:
  assumes "length y = length X" and "length Ids = length X" and "mset perm = mset [0..<length X]"
  shows "\<exists>X' y' Ids'. shuffle X y Ids perm = Inr (X', y', Ids') \<and>
      length X' = length X \<and> length y' = length X \<and> length Ids' = length X \<and>
      (\<forall>j<length X. perm ! j < length X \<and>
         X' ! j = X ! (perm ! j) \<and> y' ! j = y ! (perm ! j) \<and> Ids' ! j = Ids ! (perm ! j)) \<and>
      mset (zip X' (zip y' Ids')) = mset (zip X (zip y Ids)) \<and>
      mset X' = mset X \<and> mset y' = mset y \<and> mset Ids' = mset Ids"
proof -
  have len: "length perm = length X"
    using assms(3) by (metis length_upt mset_eq_length minus_nat.diff_0)
  have rng: "perm ! j < length X" if "j < length X" for j
  proof -
    have "perm ! j \<in> set perm" using that len by simp
    also have "set perm = set [0..<length X]" using assms(3) by (rule mset_eq_setD)
    finally show ?thesis by simp
  qed
  have z: "mset (zip (map (\<lambda>i. X ! i) perm) (zip (map (\<lambda>i. y ! i) perm) (map (\<lambda>i. Ids ! i) perm)))
      = mset (zip X (zip y Ids))"
  proof -
    have "mset (map (\<lambda>i. (X ! i, y ! i, Ids ! i)) perm)
        = image_mset (\<lambda>i. (X ! i, y ! i, Ids ! i)) (mset perm)" by simp
    also have "\<dots> = mset (map (\<lambda>i. (X ! i, y ! i, Ids ! i)) [0..<length X])"
      by (simp only: assms(3) mset_map)
    also have "\<dots> = mset (zip X (zip y Ids))" by (simp only: zip3_nth [OF assms(1,2)])
    finally show ?thesis by (simp only: zip3_map)
  qed
  have my: "mset (map (\<lambda>i. y ! i) perm) = mset y"
    using assms(3) by (intro mset_map_nth_perm) (simp add: assms(1))
  have mi: "mset (map (\<lambda>i. Ids ! i) perm) = mset Ids"
    using assms(3) by (intro mset_map_nth_perm) (simp add: assms(2))
  have mx: "mset (map (\<lambda>i. X ! i) perm) = mset X"
    using assms(3) by (intro mset_map_nth_perm)
  show ?thesis
    using assms(1,2) len rng z mx my mi by (simp add: shuffle_def)
qed

section \<open>Facts about the reporter\<close>

lemma printResults_no_predictions:
  "printResults rep name real_y [] = ([Print (''Classifier: '' @ name @ ''\<newline>'')], Some IndexError)"
  by (simp add: printResults_def)

lemma length_unique_labels: "length (unique_labels a b) = card (set a \<union> set b)"
  by (simp add: unique_labels_def length_remdups_card_conv)

lemma set_unique_labels: "set (unique_labels a b) = set a \<union> set b"
  by (simp add: unique_labels_def)

lemma unique_labels_pair:
  assumes "set a \<union> set b = {neg, pos}" and "neg < pos"
  shows "unique_labels a b = [neg, pos]"
proof -
  have "unique_labels a b = sorted_list_of_set (set (a @ b))"
    by (simp only: unique_labels_def sorted_list_of_set_sort_remdups)
  also have "\<dots> = sorted_list_of_set {neg, pos}" using assms(1) by simp
  also have "\<dots> = [neg, pos]" using assms(2) by (simp add: insort_is_Cons less_imp_le)
  finally show ?thesis .
qed

lemma length_concat_square:
  "length (concat (map (\<lambda>t. map (f t) ls) ls)) = length ls * length ls"
  by (simp add: length_concat o_def sum_list_triv)

lemma confusion_matrix_ravel:
  "confusion_matrix a b = Inr cm \<Longrightarrow> length (concat cm) = card (set a \<union> set b) * card (set a \<union> set b)"
  by (auto simp add: confusion_matrix_def Let_def length_concat_square length_unique_labels
      split: if_splits)


lemma square_eq_4: "(n::nat) * n = 4 \<longleftrightarrow> n = 2"
proof
  assume a: "n * n = 4"
  have "n \<le> 2"
  proof (rule ccontr)
    assume "\<not> n \<le> 2"
    then have n3: "3 \<le> n" by simp
    have "3 * 3 \<le> n * n" using n3 n3 by (rule mult_le_mono)
    with a show False by simp
  qed
  moreover have "n \<noteq> 0" using a by (cases "n = 0") simp_all
  moreover have "n \<noteq> 1" using a by (cases "n = 1") simp_all
  ultimately show "n = 2" by simp
qed simp


lemma case_list4_other:
  "length xs \<noteq> 4 \<Longrightarrow> (case xs of [a, b, c, d] \<Rightarrow> F a b c d | _ \<Rightarrow> G) = G"
  by (auto split: list.splits)

lemma confusion_matrix_error: "confusion_matrix a b = Inl e \<Longrightarrow> e = ValueError"
  by (simp add: confusion_matrix_def Let_def split: if_splits)

lemma printResults_rep_fail:
  assumes "predicts \<noteq> []" and "rep real_y (last predicts) = Inl e"
  shows "printResults rep name real_y predicts =
    ([Print (''Classifier: '' @ name @ ''\<newline>'')], Some e)"
  using assms by (simp add: printResults_def)

lemma printResults_cm_fail:
  assumes "predicts \<noteq> []" and "rep real_y (last predicts) = Inr rtext"
    and "confusion_matrix real_y (last predicts) = Inl e"
  shows "printResults rep name real_y predicts =
    ([Print (''Classifier: '' @ name @ ''\<newline>''), Print (rtext @ ''\<newline>'')], Some e)"
  using assms by (simp add: printResults_def)

lemma printResults_unpack_fail:
  assumes "predicts \<noteq> []" and "rep real_y (last predicts) = Inr rtext"
    and "confusion_matrix real_y (last predicts) = Inr cm" and "length (concat cm) \<noteq> 4"
  shows "printResults rep name real_y predicts =
    ([Print (''Classifier: '' @ name @ ''\<newline>''), Print (rtext @ ''\<newline>'')], Some ValueError)"
  using assms by (simp add: printResults_def case_list4_other)

lemma printResults_matrix:
  assumes "predicts \<noteq> []" and "rep real_y (last predicts) = Inr rtext"
    and "confusion_matrix real_y (last predicts) = Inr cm" and "concat cm = [tn, fp, fn, tp]"
  shows "printResults rep name real_y predicts =
    (let o3 = [Print (''Classifier: '' @ name @ ''\<newline>''), Print (rtext @ ''\<newline>''),
               Print ''Confusion Matrix:\<newline>'',
               Print '' a      b     <--- Classified as\<newline>'',
               Print (fmt5d tp @ ''  '' @ fmt5d fp @ ''   a = REAL\<newline>''),
               Print (fmt5d fn @ ''  '' @ fmt5d tn @ ''   b = FAKE\<newline>\<newline>''),
               Print ''\<newline>'']
     in if 1 < length predicts then
          (case learning_curve real_y predicts of
             Inl e \<Rightarrow> (o3, Some e)
           | Inr scores \<Rightarrow> (o3 @ [Print ''Learning curve:\<newline>'', PrintScores scores], None))
        else (o3, None))"
  using assms by (simp add: printResults_def)

lemma count_pairs_total_aux:
  assumes "\<forall>z\<in>set zs. fst z \<in> {n, p} \<and> snd z \<in> {n, p}" and "n \<noteq> p"
  shows "length (filter (\<lambda>(a, b). a = n \<and> b = n) zs) + length (filter (\<lambda>(a, b). a = n \<and> b = p) zs)
    + length (filter (\<lambda>(a, b). a = p \<and> b = n) zs) + length (filter (\<lambda>(a, b). a = p \<and> b = p) zs)
    = length zs"
  using assms by (induction zs) auto

lemma count_pairs_total:
  assumes "set a \<union> set b = {n, p}" and "n \<noteq> p" and "length a = length b"
  shows "count_pairs a b n n + count_pairs a b n p + count_pairs a b p n + count_pairs a b p p
    = length b"
proof -
  have "\<forall>z\<in>set (zip a b). fst z \<in> {n, p} \<and> snd z \<in> {n, p}"
  proof
    fix z assume z: "z \<in> set (zip a b)"
    obtain x y where xy: "z = (x, y)" by (cases z)
    from z xy have "x \<in> set a" and "y \<in> set b"
      by (auto dest: set_zip_leftD set_zip_rightD)
    then show "fst z \<in> {n, p} \<and> snd z \<in> {n, p}" using assms(1) xy by auto
  qed
  from count_pairs_total_aux [OF this assms(2)] show ?thesis
    using assms(3) by (simp add: count_pairs_def)
qed

lemma confusion_matrix_pair:
  assumes "length a = length b" and "set a \<union> set b = {neg, pos}" and "neg < pos"
  shows "confusion_matrix a b =
    Inr [[count_pairs a b neg neg, count_pairs a b neg pos],
         [count_pairs a b pos neg, count_pairs a b pos pos]]"
  using assms(1) by (simp add: confusion_matrix_def Let_def unique_labels_pair [OF assms(2,3)])

lemma printResults_labels_fail:
  assumes "predicts \<noteq> []" and "rep real_y (last predicts) = Inr rtext"
    and "card (set real_y \<union> set (last predicts)) \<noteq> 2"
  shows "printResults rep name real_y predicts =
    ([Print (''Classifier: '' @ name @ ''\<newline>''), Print (rtext @ ''\<newline>'')], Some ValueError)"
proof (cases "confusion_matrix real_y (last predicts)")
  case (Inl e)
  then have "e = ValueError" by (rule confusion_matrix_error)
  then show ?thesis
    using printResults_cm_fail [of predicts rep real_y rtext e name] assms(1,2) Inl by simp
next
  case (Inr cm)
  from confusion_matrix_ravel [OF Inr] assms(3) have "length (concat cm) \<noteq> 4"
    by (simp add: square_eq_4)
  then show ?thesis
    using printResults_unpack_fail [of predicts rep real_y rtext cm name] assms(1,2) Inr by simp
qed

lemma printResults_success_D:
  assumes "snd (printResults rep name real_y predicts) = None"
  shows "predicts \<noteq> []" and "\<exists>rtext. rep real_y (last predicts) = Inr rtext"
    and "card (set real_y \<union> set (last predicts)) = 2"
proof -
  show ne: "predicts \<noteq> []"
    using assms by (auto simp add: printResults_no_predictions)
  show r: "\<exists>rtext. rep real_y (last predicts) = Inr rtext"
  proof (cases "rep real_y (last predicts)")
    case (Inl e)
    from printResults_rep_fail [of predicts rep real_y e name] ne Inl assms
    show ?thesis by simp
  next
    case (Inr t)
    then show ?thesis by blast
  qed
  show "card (set real_y \<union> set (last predicts)) = 2"
  proof (rule ccontr)
    assume c: "card (set real_y \<union> set (last predicts)) \<noteq> 2"
    from r obtain t where "rep real_y (last predicts) = Inr t" by blast
    from printResults_labels_fail [of predicts rep real_y t name] ne this c assms
    show False by simp
  qed
qed

lemma fake_less_real: "''FAKE'' < ''REAL''"
  by simp

lemma replicate_4: "replicate 4 c = [c, c, c, c]"
  by (simp add: numeral_eq_Suc)

lemma fmt5d_small:
  "fmt5d 0 = ''    0''" "fmt5d (Suc 0) = ''    1''" "fmt5d 2 = ''    2''"
  by (simp_all add: fmt5d_def digits.simps replicate_4)














section \<open>Facts about the orchestrator\<close>














section \<open>Classifier selection\<close>

lemma parseArguments_default:
  "parseArguments None = Some [LinearSVC, MultinomialNB, RandomForestClassifier]"
  "parseArguments (Some ''all'') = Some [LinearSVC, MultinomialNB, RandomForestClassifier]"
  by (simp_all add: parseArguments_def choices_def)

lemma parseArguments_single:
  "parseArguments (Some ''linearsvc'') = Some [LinearSVC]"
  "parseArguments (Some ''naive_bayes'') = Some [MultinomialNB]"
  "parseArguments (Some ''randomforest'') = Some [RandomForestClassifier]"
  "parseArguments (Some ''mlp'') = Some [MLPClassifier]"
  by (simp_all add: parseArguments_def choices_def)

lemma parseArguments_nonempty: "parseArguments c = Some ks \<Longrightarrow> ks \<noteq> []"
  by (auto simp add: parseArguments_def Let_def split: if_splits)

text \<open>
  C9. A selection that names one classifier kind should evaluate exactly one classifier
  of that kind, and \<^verbatim>\<open>all\<close> or no selection the three non-neural kinds. The program accepts
  \<^verbatim>\<open>svc\<close> as a choice, but no branch handles it: the selection \<^verbatim>\<open>svc\<close> falls through to
  the default and evaluates LinearSVC, MultinomialNB and RandomForestClassifier, and no SVC.
\<close>

theorem parseArguments_svc:
  "parseArguments (Some ''svc'') = Some [LinearSVC, MultinomialNB, RandomForestClassifier]"
  by (simp add: parseArguments_def choices_def)

section \<open>The slices of the evaluator\<close>

lemma slices_minus_one: "slices (- 1) n = Inr []"
  by (simp add: slices_def linspace_def)

text \<open>
  C1. With \<^verbatim>\<open>lc = -1\<close> the evaluator should use one slice, the full dataset. In the
  program \<^verbatim>\<open>np.linspace(0, 1, 0)\<close> is empty, so there is no slice at all: no
  cross-validation is run and the list of prediction sequences is empty (the reporter
  then fails on \<^verbatim>\<open>predicts[-1]\<close>).
\<close>

theorem predictAndEvaluate_minus_one:
  "predictAndEvaluate clf X y (- 1) = ([], Inr [])"
  by (simp add: predictAndEvaluate_def slices_minus_one)

text \<open>
  C2 (as stated). The \<open>i\<close>-th slice should be the prefix of length \<open>\<lceil>i * N / lc\<rceil>\<close>, with
  strictly increasing lengths. The program truncates instead: with ten records and
  \<^verbatim>\<open>lc = 4\<close> the first slice has 2 records where the ceiling gives 3, and with one record
  and \<^verbatim>\<open>lc = 4\<close> the first three slices are all empty.
\<close>

theorem slices_ceiling_counterexample:
  "slices 4 10 = Inr [2, 5, 7, 10] \<and> \<lceil>1 * 10 / (4::rat)\<rceil> = (3::int) \<and>
   slices 4 1 = Inr [0, 0, 0, 1]"
proof -
  have "\<lceil>1 * 10 / (4::rat)\<rceil> = (3::int)" by (simp add: ceiling_eq_iff)
  then show ?thesis using slices_4_10 slices_4_1 by simp
qed

text \<open>
  C2 (amended). For \<open>1 \<le> lc < 2^53\<close> and fewer than \<open>2^53\<close> records the evaluator computes
  exactly \<open>lc\<close> slice boundaries; the last one is the number of records, the boundaries
  never decrease, and the \<open>i\<close>-th one (\<open>i < lc\<close>) is the double-precision product
  \<open>(i * (1 / lc)) * N\<close> with its fraction dropped. When cross-validation succeeds on each of
  these prefixes and returns one label per record, the evaluator calls it on exactly
  these prefixes, in order, and returns one prediction sequence per boundary, of that
  length.
\<close>

theorem predictAndEvaluate_slices:
  assumes "1 \<le> lc" and "lc < 2 ^ 53" and "length y < 2 ^ 53"
  shows "\<exists>s. slices lc (length y) = Inr s \<and> length s = nat lc \<and> last s = int (length y) \<and>
      sorted s \<and> (\<forall>i<nat lc - 1. s ! i = slice_at lc (length y) (i + 1)) \<and>
      ((\<forall>v\<in>set s. \<exists>p. cross_val_predict clf (take (nat v) X) (take (nat v) y) = Inr p \<and>
                          length p = length (take (nat v) y)) \<longrightarrow>
       (\<exists>ps. predictAndEvaluate clf X y lc = (map (\<lambda>v. CrossValPredict (nat v)) s, Inr ps) \<and>
             map (\<lambda>p. int (length p)) ps = s))"
proof -
  define s where "s = map (slice_at lc (length y)) [1..<nat lc] @ [int (length y)]"
  have s: "slices lc (length y) = Inr s" unfolding s_def by (rule slices_unit [OF assms])
  note p = slices_props [OF assms s]
  have take_len: "length (take (nat v) y) = nat v" if "v \<in> set s" for v
    using p(4) [OF that] by (simp add: min_def) linarith
  have run: "\<exists>ps. predictAndEvaluate clf X y lc = (map (\<lambda>v. CrossValPredict (nat v)) s, Inr ps) \<and>
             map (\<lambda>p. int (length p)) ps = s"
    if cv: "\<forall>v\<in>set s. \<exists>p. cross_val_predict clf (take (nat v) X) (take (nat v) y) = Inr p \<and>
                          length p = length (take (nat v) y)"
  proof -
    let ?f = "\<lambda>v. projr (cross_val_predict clf (take (nat v) X) (take (nat v) y))"
    have "predictAndEvaluate clf X y lc =
        (map (\<lambda>v. CrossValPredict (length (take (nat v) y))) s, Inr (map ?f s))"
      using s p(4) cv by (intro predictAndEvaluate_ok) auto
    moreover have "map (\<lambda>v. CrossValPredict (length (take (nat v) y))) s
        = map (\<lambda>v. CrossValPredict (nat v)) s"
      by (rule map_cong) (simp_all only: take_len)
    moreover have "map (\<lambda>p. int (length p)) (map ?f s) = s"
    proof -
      have "int (length (?f v)) = v" if "v \<in> set s" for v
      proof -
        from cv that obtain q where "cross_val_predict clf (take (nat v) X) (take (nat v) y) = Inr q"
          and "length q = length (take (nat v) y)" by blast
        then show ?thesis using take_len [OF that] p(4) [OF that] by simp
      qed
      then have "map (\<lambda>v. int (length (?f v))) s = map (\<lambda>v. v) s" by (intro map_cong) simp_all
      then show ?thesis by (simp add: o_def)
    qed
    ultimately show ?thesis by (intro exI [of _ "map ?f s"]) simp
  qed
  show ?thesis
    using s p(1,2,3,5) run by (intro exI [of _ s]) blast
qed

theorem predictAndEvaluate_slices_witness:
  "\<exists>ps. predictAndEvaluate perfect ten_rows ten_labels 4 =
      ([CrossValPredict 2, CrossValPredict 5, CrossValPredict 7, CrossValPredict 10], Inr ps) \<and>
    map (\<lambda>p. int (length p)) ps = [2, 5, 7, 10]"
proof -
  have len: "length ten_labels = 10" by (simp add: ten_labels_def)
  have "(1::int) \<le> 4" and "(4::int) < 2 ^ 53" and "length ten_labels < 2 ^ 53"
    by (simp_all add: len)
  from predictAndEvaluate_slices [OF this, of perfect ten_rows]
  obtain s where s: "slices 4 (length ten_labels) = Inr s"
    and run: "(\<forall>v\<in>set s. \<exists>p. cross_val_predict perfect (take (nat v) ten_rows)
                  (take (nat v) ten_labels) = Inr p \<and> length p = length (take (nat v) ten_labels)) \<longrightarrow>
       (\<exists>ps. predictAndEvaluate perfect ten_rows ten_labels 4 =
              (map (\<lambda>v. CrossValPredict (nat v)) s, Inr ps) \<and>
             map (\<lambda>p. int (length p)) ps = s)"
    by blast
  have s': "s = [2, 5, 7, 10]" using s slices_4_10 by (simp add: len)
  have "\<forall>v\<in>set s. \<exists>p. cross_val_predict perfect (take (nat v) ten_rows)
      (take (nat v) ten_labels) = Inr p \<and> length p = length (take (nat v) ten_labels)"
    by (simp add: perfect_def)
  with run show ?thesis by (simp add: s')
qed

section \<open>The data preparer\<close>

lemma small_table_ok:
  "well_formed small_table" "''Tag'' \<in> fst ` set (columns small_table)"
  "mset [2, 0, 1] = mset [0..<length (index small_table)]"
  by (simp_all add: well_formed_def small_table_def upt_rec)

text \<open>
  C3. For a well-formed table with a \<^verbatim>\<open>Tag\<close> column and any permutation drawn by the
  shuffle, the data preparer returns features, labels and ids of equal length; all three
  are indexed by the same permutation, so the triples (row, label, id) are the table's
  triples in another order, and the labels are the same multiset as the \<^verbatim>\<open>Tag\<close> column.
\<close>

theorem getDatasetValues_permutes:
  assumes "well_formed df" and "''Tag'' \<in> fst ` set (columns df)"
    and "mset perm = mset [0..<length (index df)]"
  shows "\<exists>tags df' X y Ids.
      loc_tolist df ''Tag'' = Inr tags \<and> drop_column df ''Tag'' = Inr df' \<and>
      getDatasetValues df perm = Inr (X, y, Ids) \<and>
      length X = length y \<and> length y = length Ids \<and>
      (\<forall>j<length Ids. X ! j = df_values df' ! (perm ! j) \<and> y ! j = tags ! (perm ! j) \<and>
                        Ids ! j = index df ! (perm ! j)) \<and>
      mset (zip X (zip y Ids)) = mset (zip (df_values df') (zip tags (index df))) \<and>
      mset y = mset tags"
proof -
  from loc_tolist_present [OF assms(1,2)] obtain tags
    where t: "loc_tolist df ''Tag'' = Inr tags" and lt: "length tags = length (index df)" by blast
  define df' where "df' = df\<lparr>columns := filter (\<lambda>c. fst c \<noteq> ''Tag'') (columns df)\<rparr>"
  have d: "drop_column df ''Tag'' = Inr df'" using assms(2) by (simp add: drop_column_def df'_def)
  have ix: "index df' = index df" by (simp add: df'_def)
  have lx: "length (df_values df') = length (index df)" by (simp add: length_df_values ix)
  have g: "getDatasetValues df perm = shuffle (df_values df') tags (index df) perm"
    by (simp add: getDatasetValues_def t d ix)
  have "length tags = length (df_values df')" and "length (index df) = length (df_values df')"
    and "mset perm = mset [0..<length (df_values df')]"
    using lt lx assms(3) by simp_all
  from shuffle_ok [OF this] obtain X y Ids
    where "shuffle (df_values df') tags (index df) perm = Inr (X, y, Ids)"
      and "length X = length (df_values df')" and "length y = length (df_values df')"
      and "length Ids = length (df_values df')"
      and "\<forall>j<length (df_values df'). perm ! j < length (df_values df') \<and>
         X ! j = df_values df' ! (perm ! j) \<and> y ! j = tags ! (perm ! j) \<and>
         Ids ! j = index df ! (perm ! j)"
      and "mset (zip X (zip y Ids)) = mset (zip (df_values df') (zip tags (index df)))"
      and "mset y = mset tags"
    by blast
  then show ?thesis using t d g by (intro exI [of _ tags] exI [of _ df'] exI [of _ X] exI [of _ y] exI [of _ Ids]) simp
qed

theorem getDatasetValues_permutes_witness:
  "\<exists>X y Ids. getDatasetValues small_table [2, 0, 1] = Inr (X, y, Ids) \<and>
     length X = length y \<and> length y = length Ids \<and> mset y = mset [''REAL'', ''FAKE'', ''REAL'']"
proof -
  have t: "loc_tolist small_table ''Tag'' = Inr [''REAL'', ''FAKE'', ''REAL'']"
    by (simp add: loc_tolist_def small_table_def)
  from getDatasetValues_permutes [OF small_table_ok] t show ?thesis by auto
qed

text \<open>
  C8. A table without a \<^verbatim>\<open>Tag\<close> column makes the data preparer fail with pandas'
  \<^verbatim>\<open>KeyError\<close> (the specification's MissingColumn). In the orchestrator the run ends there:
  only the dataset header has been printed and no cross-validation has been called.
\<close>

theorem getDatasetValues_missing_tag:
  assumes "''Tag'' \<notin> fst ` set (columns df)"
  shows "getDatasetValues df perm = Inl KeyError \<and>
    main_dataset rep clfs lc (name, df, perm) =
      ([Print (''Dataset: '' @ name @ ''\<newline>'')], Some KeyError) \<and>
    main rep clfs lc ((name, df, perm) # ds) =
      ([Print (''Dataset: '' @ name @ ''\<newline>'')], Some KeyError)"
proof -
  have g: "getDatasetValues df perm = Inl KeyError"
    by (simp add: getDatasetValues_def loc_tolist_missing [OF assms])
  then have m: "main_dataset rep clfs lc (name, df, perm) =
      ([Print (''Dataset: '' @ name @ ''\<newline>'')], Some KeyError)"
    by (simp add: main_dataset_def)
  show ?thesis using g m by simp
qed

theorem getDatasetValues_missing_tag_witness:
  "getDatasetValues untagged_table [2, 0, 1] = Inl KeyError \<and>
   main plain_report [perfect] 1 [(''news.csv'', untagged_table, [2, 0, 1])] =
     ([Print ''Dataset: news.csv\<newline>''], Some KeyError)"
proof -
  have "''Tag'' \<notin> fst ` set (columns untagged_table)" by (simp add: untagged_table_def)
  from getDatasetValues_missing_tag [OF this, of "[2, 0, 1]" plain_report "[perfect]" 1 "''news.csv''" "[]"]
  show ?thesis by simp
qed

section \<open>The reporter\<close>

text \<open>
  C10. The reporter completes only when exactly two distinct labels occur in the true
  labels and the last prediction sequence together: the flattened confusion matrix is
  unpacked into four counts. With any other number of labels (all labels identical, for
  one) the call ends with a \<^verbatim>\<open>ValueError\<close> after the classifier line and the
  classification report, and no confusion matrix or learning curve is printed.
\<close>

theorem printResults_needs_two_labels:
  "(snd (printResults rep name real_y predicts) = None \<longrightarrow>
      card (set real_y \<union> set (last predicts)) = 2) \<and>
   (predicts \<noteq> [] \<longrightarrow> rep real_y (last predicts) = Inr rtext \<longrightarrow>
      card (set real_y \<union> set (last predicts)) \<noteq> 2 \<longrightarrow>
      printResults rep name real_y predicts =
        ([Print (''Classifier: '' @ name @ ''\<newline>''), Print (rtext @ ''\<newline>'')],
         Some ValueError))"
  using printResults_success_D(3) [of rep name real_y predicts]
    printResults_labels_fail [of predicts rep real_y rtext name]
  by blast

theorem printResults_needs_two_labels_witness:
  "printResults plain_report ''LinearSVC'' [''REAL'', ''REAL''] [[''REAL'', ''REAL'']] =
     ([Print ''Classifier: LinearSVC\<newline>'', Print ''report\<newline>''], Some ValueError)"
  using printResults_needs_two_labels
    [of plain_report "''LinearSVC''" "[''REAL'', ''REAL'']" "[[''REAL'', ''REAL'']]" "''report''"]
  by (simp add: plain_report_def)

text \<open>
  C7 (as stated). For every true-label sequence and every non-empty list of prediction
  sequences the reporter should print the confusion matrix. It does not when only one
  label occurs: with three records, all \<^verbatim>\<open>FAKE\<close> and all predicted \<^verbatim>\<open>FAKE\<close>, the matrix has
  one entry, the unpacking into four counts raises \<^verbatim>\<open>ValueError\<close>, and nothing is printed
  after the classification report. Nor does it when the last prediction sequence and the
  true labels differ in length: scikit-learn refuses them, and only the classifier line is
  printed.
\<close>

theorem printResults_matrix_counterexample:
  "printResults plain_report ''LinearSVC'' [''FAKE'', ''FAKE'', ''FAKE'']
     [[''FAKE'', ''FAKE'', ''FAKE'']] =
     ([Print ''Classifier: LinearSVC\<newline>'', Print ''report\<newline>''], Some ValueError) \<and>
   printResults checked_report ''LinearSVC'' [''REAL'', ''FAKE'', ''REAL'']
     [[''REAL'', ''FAKE'']] =
     ([Print ''Classifier: LinearSVC\<newline>''], Some ValueError)"
proof -
  let ?y = "[''FAKE'', ''FAKE'', ''FAKE'']"
  have "printResults plain_report ''LinearSVC'' ?y [?y] =
     ([Print ''Classifier: LinearSVC\<newline>'', Print ''report\<newline>''], Some ValueError)"
    using printResults_labels_fail [of "[?y]" plain_report ?y "''report''" "''LinearSVC''"]
    by (simp add: plain_report_def)
  moreover have "printResults checked_report ''LinearSVC'' [''REAL'', ''FAKE'', ''REAL'']
     [[''REAL'', ''FAKE'']] = ([Print ''Classifier: LinearSVC\<newline>''], Some ValueError)"
    using printResults_rep_fail [of "[[''REAL'', ''FAKE'']]" checked_report
        "[''REAL'', ''FAKE'', ''REAL'']" ValueError "''LinearSVC''"]
    by (simp add: checked_report_def)
  ultimately show ?thesis by (rule conjI)
qed

text \<open>
  C7 (amended). When the last prediction sequence has as many entries as there are true
  labels, exactly two labels \<open>neg < pos\<close> occur in the two together (\<^verbatim>\<open>FAKE\<close> and \<^verbatim>\<open>REAL\<close>)
  and scikit-learn produces the classification report, the reporter prints the
  classification report of the last prediction sequence and then the confusion matrix of
  the last prediction sequence: the row labelled \<^verbatim>\<open>a = REAL\<close> holds the true positives and
  the false positives, the row labelled \<^verbatim>\<open>b = FAKE\<close> the false negatives and the true
  negatives, and the four counts add up to the length of the last prediction sequence.
\<close>

theorem printResults_confusion_matrix:
  assumes "predicts \<noteq> []" and "rep real_y (last predicts) = Inr rtext"
    and "length real_y = length (last predicts)"
    and "set real_y \<union> set (last predicts) = {neg, pos}" and "neg < pos"
  shows "(\<exists>rest. fst (printResults rep name real_y predicts) =
      [Print (''Classifier: '' @ name @ ''\<newline>''), Print (rtext @ ''\<newline>''),
       Print ''Confusion Matrix:\<newline>'',
       Print '' a      b     <--- Classified as\<newline>'',
       Print (fmt5d (count_pairs real_y (last predicts) pos pos) @ ''  '' @
              fmt5d (count_pairs real_y (last predicts) neg pos) @ ''   a = REAL\<newline>''),
       Print (fmt5d (count_pairs real_y (last predicts) pos neg) @ ''  '' @
              fmt5d (count_pairs real_y (last predicts) neg neg) @ ''   b = FAKE\<newline>\<newline>''),
       Print ''\<newline>''] @ rest) \<and>
    count_pairs real_y (last predicts) pos pos + count_pairs real_y (last predicts) neg pos +
    count_pairs real_y (last predicts) pos neg + count_pairs real_y (last predicts) neg neg
      = length (last predicts)"
proof -
  let ?c = "count_pairs real_y (last predicts)"
  have cm: "confusion_matrix real_y (last predicts) =
      Inr [[?c neg neg, ?c neg pos], [?c pos neg, ?c pos pos]]"
    by (rule confusion_matrix_pair [OF assms(3,4,5)])
  have cc: "concat [[?c neg neg, ?c neg pos], [?c pos neg, ?c pos pos]]
      = [?c neg neg, ?c neg pos, ?c pos neg, ?c pos pos]" by simp
  note m = printResults_matrix [of predicts rep real_y rtext _ "?c neg neg" "?c neg pos"
      "?c pos neg" "?c pos pos" name, OF assms(1,2) cm cc]
  have 1: "\<exists>rest. fst (printResults rep name real_y predicts) =
      [Print (''Classifier: '' @ name @ ''\<newline>''), Print (rtext @ ''\<newline>''),
       Print ''Confusion Matrix:\<newline>'',
       Print '' a      b     <--- Classified as\<newline>'',
       Print (fmt5d (?c pos pos) @ ''  '' @ fmt5d (?c neg pos) @ ''   a = REAL\<newline>''),
       Print (fmt5d (?c pos neg) @ ''  '' @ fmt5d (?c neg neg) @ ''   b = FAKE\<newline>\<newline>''),
       Print ''\<newline>''] @ rest"
  proof (cases "1 < length predicts")
    case False
    then show ?thesis unfolding m by (intro exI [of _ "[]"]) (simp add: Let_def)
  next
    case True
    show ?thesis
    proof (cases "learning_curve real_y predicts")
      case (Inl e)
      then show ?thesis unfolding m using True by (intro exI [of _ "[]"]) (simp add: Let_def)
    next
      case (Inr scores)
      then show ?thesis unfolding m using True
        by (intro exI [of _ "[Print ''Learning curve:\<newline>'', PrintScores scores]"])
          (simp add: Let_def)
    qed
  qed
  have "neg \<noteq> pos" using assms(5) by simp
  from count_pairs_total [OF assms(4) this assms(3)]
  have 2: "?c pos pos + ?c neg pos + ?c pos neg + ?c neg neg = length (last predicts)"
    by simp
  show ?thesis using 1 2 by (rule conjI)
qed

theorem printResults_confusion_matrix_witness:
  "\<exists>rest. fst (printResults plain_report ''LinearSVC'' [''REAL'', ''FAKE'', ''REAL'', ''FAKE'']
        [[''FAKE'', ''FAKE'', ''REAL'', ''FAKE'']]) =
     [Print ''Classifier: LinearSVC\<newline>'', Print ''report\<newline>'',
      Print ''Confusion Matrix:\<newline>'',
      Print '' a      b     <--- Classified as\<newline>'',
      Print ''    1      0   a = REAL\<newline>'',
      Print ''    1      2   b = FAKE\<newline>\<newline>'',
      Print ''\<newline>''] @ rest"
proof -
  let ?real = "[''REAL'', ''FAKE'', ''REAL'', ''FAKE'']"
  let ?pred = "[''FAKE'', ''FAKE'', ''REAL'', ''FAKE'']"
  have 1: "[?pred] \<noteq> []" by simp
  have 2: "plain_report ?real (last [?pred]) = Inr ''report''" by (simp add: plain_report_def)
  have 3: "length ?real = length (last [?pred])" by simp
  have 4: "set ?real \<union> set (last [?pred]) = {''FAKE'', ''REAL''}" by auto
  have c: "count_pairs ?real ?pred ''REAL'' ''REAL'' = 1"
    "count_pairs ?real ?pred ''FAKE'' ''REAL'' = 0"
    "count_pairs ?real ?pred ''REAL'' ''FAKE'' = 1"
    "count_pairs ?real ?pred ''FAKE'' ''FAKE'' = 2"
    by (simp_all add: count_pairs_def)
  from printResults_confusion_matrix [of "[?pred]" plain_report ?real "''report''"
      "''FAKE''" "''REAL''" "''LinearSVC''", OF 1 2 3 4 fake_less_real]
  show ?thesis by (simp add: c fmt5d_small)
qed




section \<open>The orchestrator\<close>



end
